theory Spec2Isabelle
  imports Main
begin

section \<open>The windowed loader of \<open>src/src/InfiniteLoader.tsx\<close>\<close>

text \<open>
  The component keeps a window \<open>(startIndex, endIndex)\<close> of materialised indices, reacts to
  edge triggers of two intersection observers through a debounce timer and a loading timer,
  and exposes \<open>scrollToIndex\<close>, \<open>getCurrentRange\<close> and \<open>reset\<close>.

  Numbers are modelled as \<open>int\<close> (the integral values of a JavaScript number, below the
  range where doubles lose precision); \<open>Math.floor (windowSize / 2)\<close> is \<open>windowSize div 2\<close>,
  which floors on \<open>int\<close> as \<open>Math.floor\<close> does. Time is in milliseconds.
\<close>

subsection \<open>Props\<close>

text \<open>
  The props that the arithmetic and the scheduling read. \<open>onLoadMore\<close> records whether the
  optional callback was supplied (\<open>onLoadMore?.(...)\<close>). \<open>frameDelay\<close> is not a prop: it is
  the host's delay until the next animation frame, which \<open>requestAnimationFrame\<close> waits for.
\<close>

record props =
  itemHeight :: int
  windowSize :: int
  batchSize :: int
  onLoadMore :: bool
  loadingDelay :: int
  debounceDelay :: int
  initialStartIndex :: int
  disableScrollManagement :: bool
  frameDelay :: int

text \<open>The defaults of the destructured props (lines 46 to 57), with a callback supplied.\<close>

definition defaultProps :: props where
  "defaultProps =
     \<lparr>itemHeight = 50, windowSize = 30, batchSize = 10, onLoadMore = True,
      loadingDelay = 50, debounceDelay = 150, initialStartIndex = 0,
      disableScrollManagement = False, frameDelay = 16\<rparr>"

subsection \<open>State, timers and observable effects\<close>

datatype direction = Up | Down

text \<open>
  The scheduled continuations of the source: the debounce callback, the loading callback
  (with the \<open>scrollTop\<close> captured by its closure in the scroll managed branch, \<open>None\<close> in
  the other branch) and the animation frame callback (with the same captured \<open>scrollTop\<close>).
\<close>

datatype task =
  Debounce direction
| Load direction "int option"
| Frame direction int

record timer =
  tid :: nat
  due :: int
  job :: task

text \<open>
  What an observer of the component sees of a load episode: \<open>setIsLoading(true)\<close> starts it,
  and the call of \<open>onLoadMore\<close> reports the shifted window.
\<close>

datatype effect =
  LoadStarted direction
| LoadMore direction int int

text \<open>
  \<open>startIndex\<close>, \<open>endIndex\<close>, \<open>isLoading\<close> are the \<open>useState\<close> cells; \<open>loadingRef\<close>,
  \<open>startIndexRef\<close>, \<open>debounceRef\<close> the \<open>useRef\<close> cells; \<open>scrollTop\<close> is
  \<open>containerRef.current\<close> (\<open>None\<close> for \<open>null\<close>) with the offset last written to it. The
  value stored is the one the code assigns: any clamping by the host's layout is outside
  the component. \<open>now\<close>, \<open>nextId\<close> and \<open>pending\<close> are the event loop: the clock, the next
  timer handle and the timers not yet run.
\<close>

record state =
  startIndex :: int
  endIndex :: int
  isLoading :: bool
  loadingRef :: bool
  startIndexRef :: int
  debounceRef :: "nat option"
  scrollTop :: "int option"
  now :: int
  nextId :: nat
  pending :: "timer list"
  trace :: "effect list"

text \<open>
  Lines 59 to 73 at mount. The container \<open>div\<close> is rendered unconditionally, so its ref is
  attached from the first commit on, with offset 0. Timer handles are positive.
\<close>

definition mount :: "props \<Rightarrow> state" where
  "mount p =
     \<lparr>startIndex = initialStartIndex p,
      endIndex = initialStartIndex p + windowSize p - 1,
      isLoading = False,
      loadingRef = False,
      startIndexRef = initialStartIndex p,
      debounceRef = None,
      scrollTop = Some 0,
      now = 0,
      nextId = 1,
      pending = [],
      trace = []\<rparr>"

text \<open>
  Line 82: \<open>Array.from({ length: windowSize }, (_, i) => startIndex + i)\<close>. A length that
  is not positive gives the empty array.
\<close>

definition visibleIndices :: "props \<Rightarrow> state \<Rightarrow> int list" where
  "visibleIndices p s = map (\<lambda>i. startIndex s + int i) [0 ..< nat (windowSize p)]"

subsection \<open>The host's timers\<close>

text \<open>\<open>setTimeout\<close>: a delay below 0 counts as 0. The handle returned is \<open>nextId s\<close>.\<close>

definition setTimeout :: "task \<Rightarrow> int \<Rightarrow> state \<Rightarrow> state" where
  "setTimeout k d s =
     s\<lparr>pending := pending s @ [\<lparr>tid = nextId s, due = now s + max 0 d, job = k\<rparr>],
       nextId := Suc (nextId s)\<rparr>"

text \<open>\<open>clearTimeout\<close>: a handle that already ran, or was never given out, changes nothing.\<close>

definition clearTimeout :: "nat \<Rightarrow> state \<Rightarrow> state" where
  "clearTimeout i s = s\<lparr>pending := filter (\<lambda>t. tid t \<noteq> i) (pending s)\<rparr>"

definition requestAnimationFrame :: "props \<Rightarrow> task \<Rightarrow> state \<Rightarrow> state" where
  "requestAnimationFrame p k s = setTimeout k (frameDelay p) s"

text \<open>
  Lines 76 to 79: the effect that copies the state cells into the refs after a render.
  It is run at the end of every handler that sets state.
\<close>

definition syncRefs :: "state \<Rightarrow> state" where
  "syncRefs s = s\<lparr>loadingRef := isLoading s, startIndexRef := startIndex s\<rparr>"

subsection \<open>The load scheduler\<close>

text \<open>Lines 93 to 101 and 165: the synchronous part of \<open>loadMoreDown\<close>.\<close>

definition loadMoreDown :: "props \<Rightarrow> state \<Rightarrow> state" where
  "loadMoreDown p s =
     (if loadingRef s then s
      else
        let s1 = (case debounceRef s of None \<Rightarrow> s | Some i \<Rightarrow> clearTimeout i s)
        in (setTimeout (Debounce Down) (debounceDelay p) s1)\<lparr>debounceRef := Some (nextId s1)\<rparr>)"

text \<open>Lines 174 to 182 and 246: the synchronous part of \<open>loadMoreUp\<close>.\<close>

definition loadMoreUp :: "props \<Rightarrow> state \<Rightarrow> state" where
  "loadMoreUp p s =
     (if loadingRef s \<or> startIndexRef s \<le> 0 then s
      else
        let s1 = (case debounceRef s of None \<Rightarrow> s | Some i \<Rightarrow> clearTimeout i s)
        in (setTimeout (Debounce Up) (debounceDelay p) s1)\<lparr>debounceRef := Some (nextId s1)\<rparr>)"

text \<open>
  Lines 101 to 125 and 152 to 154 (down), 182 to 206 and 233 to 235 (up): the debounce
  callback sets the loading flag, and in the scroll managed branch captures \<open>scrollTop\<close>.
\<close>

definition debounced :: "props \<Rightarrow> direction \<Rightarrow> state \<Rightarrow> state" where
  "debounced p d s =
     (let s1 = s\<lparr>isLoading := True, trace := trace s @ [LoadStarted d]\<rparr>
      in case scrollTop s1 of
           Some y0 \<Rightarrow>
             if \<not> disableScrollManagement p
             then setTimeout (Load d (Some y0)) (loadingDelay p) s1
             else setTimeout (Load d None) (loadingDelay p) s1
         | None \<Rightarrow> setTimeout (Load d None) (loadingDelay p) s1)"

text \<open>Lines 126 and 155 (down), 207 and 236 (up).\<close>

definition newStartIndex :: "props \<Rightarrow> direction \<Rightarrow> state \<Rightarrow> int" where
  "newStartIndex p d s =
     (case d of
        Down \<Rightarrow> startIndexRef s + batchSize p
      | Up \<Rightarrow> max 0 (startIndexRef s - batchSize p))"

text \<open>
  Lines 125 to 151 and 154 to 163 (down), 206 to 232 and 235 to 244 (up): the loading
  callback shifts the window, clears the loading flag, calls \<open>onLoadMore\<close> when it was
  supplied, and in the scroll managed branch asks for an animation frame.
\<close>

definition loaded :: "props \<Rightarrow> direction \<Rightarrow> int option \<Rightarrow> state \<Rightarrow> state" where
  "loaded p d cap s =
     (let newStart = newStartIndex p d s;
          newEnd = newStart + windowSize p - 1;
          s1 = s\<lparr>startIndex := newStart, endIndex := newEnd, isLoading := False\<rparr>;
          s2 = (if onLoadMore p then s1\<lparr>trace := trace s1 @ [LoadMore d newStart newEnd]\<rparr> else s1)
      in case cap of
           None \<Rightarrow> s2
         | Some y0 \<Rightarrow> requestAnimationFrame p (Frame d y0) s2)"

text \<open>
  Lines 136 to 139 (down) and 217 to 220 (up): the frame callback writes the compensated
  offset to the container its closure captured, which is never \<open>null\<close> there.
\<close>

definition newScrollTop :: "props \<Rightarrow> direction \<Rightarrow> int \<Rightarrow> int" where
  "newScrollTop p d y0 =
     (case d of
        Down \<Rightarrow> max 0 (y0 - batchSize p * itemHeight p)
      | Up \<Rightarrow> y0 + batchSize p * itemHeight p)"

definition framed :: "props \<Rightarrow> direction \<Rightarrow> int \<Rightarrow> state \<Rightarrow> state" where
  "framed p d y0 s = s\<lparr>scrollTop := Some (newScrollTop p d y0)\<rparr>"

text \<open>Running one scheduled continuation, followed by the render it causes.\<close>

fun fire :: "props \<Rightarrow> task \<Rightarrow> state \<Rightarrow> state" where
  "fire p (Debounce d) s = syncRefs (debounced p d s)"
| "fire p (Load d cap) s = syncRefs (loaded p d cap s)"
| "fire p (Frame d y0) s = framed p d y0 s"

subsection \<open>The imperative handle\<close>

text \<open>Lines 362 to 374.\<close>

definition scrollToIndex :: "props \<Rightarrow> int \<Rightarrow> state \<Rightarrow> state" where
  "scrollToIndex p index s =
     (case scrollTop s of
        None \<Rightarrow> s
      | Some _ \<Rightarrow>
          let targetScrollTop = index * itemHeight p;
              newStart = max 0 (index - windowSize p div 2);
              newEnd = newStart + windowSize p - 1
          in s\<lparr>scrollTop := Some targetScrollTop, startIndex := newStart, endIndex := newEnd\<rparr>)"

text \<open>Line 375.\<close>

definition getCurrentRange :: "state \<Rightarrow> int \<times> int" where
  "getCurrentRange s = (startIndex s, endIndex s)"

text \<open>Lines 376 to 382.\<close>

definition reset :: "props \<Rightarrow> state \<Rightarrow> state" where
  "reset p s =
     (let s1 = s\<lparr>startIndex := initialStartIndex p,
                 endIndex := initialStartIndex p + windowSize p - 1\<rparr>
      in case scrollTop s1 of
           None \<Rightarrow> s1
         | Some _ \<Rightarrow> s1\<lparr>scrollTop := Some 0\<rparr>)"

subsection \<open>The event loop\<close>

text \<open>
  What reaches the component from outside: an intersection of the bottom or the top
  sentinel (lines 286 and 304), a call on the imperative handle, a scroll gesture of the
  user, and the mere passing of time.
\<close>

datatype event =
  Edge direction
| ScrollToIndex int
| Reset
| UserScroll int
| Tick

fun handle :: "props \<Rightarrow> event \<Rightarrow> state \<Rightarrow> state" where
  "handle p (Edge Down) s = loadMoreDown p s"
| "handle p (Edge Up) s = loadMoreUp p s"
| "handle p (ScrollToIndex i) s = syncRefs (scrollToIndex p i s)"
| "handle p Reset s = syncRefs (reset p s)"
| "handle p (UserScroll y) s = (case scrollTop s of None \<Rightarrow> s | Some _ \<Rightarrow> s\<lparr>scrollTop := Some y\<rparr>)"
| "handle p Tick s = s"

text \<open>The timer to run next: the earliest one, the first armed among equals.\<close>

fun earliest :: "timer list \<Rightarrow> timer option" where
  "earliest [] = None"
| "earliest (x # xs) =
     (case earliest xs of
        None \<Rightarrow> Some x
      | Some y \<Rightarrow> if due y < due x then Some y else Some x)"

text \<open>
  A debounce callback arms a loading callback, which may arm a frame callback, which arms
  nothing: the pending work is bounded by the sum of these ranks.
\<close>

fun rank :: "task \<Rightarrow> nat" where
  "rank (Debounce d) = 3"
| "rank (Load d cap) = 2"
| "rank (Frame d y0) = 1"

definition weight :: "state \<Rightarrow> nat" where
  "weight s = sum_list (map (\<lambda>t. rank (job t)) (pending s))"

text \<open>
  Letting the clock reach \<open>t\<close>: every timer due by then runs, in order, each at its own
  time; a continuation may arm a further timer, which runs too when it is due by \<open>t\<close>.
\<close>

function advance :: "props \<Rightarrow> int \<Rightarrow> state \<Rightarrow> state" where
  "advance p t s =
     (case earliest (pending s) of
        None \<Rightarrow> s\<lparr>now := max (now s) t\<rparr>
      | Some tm \<Rightarrow>
          if due tm \<le> t
          then advance p t
                 (fire p (job tm)
                    (s\<lparr>pending := filter (\<lambda>x. tid x \<noteq> tid tm) (pending s),
                       now := max (now s) (due tm)\<rparr>))
          else s\<lparr>now := max (now s) t\<rparr>)"
  by pat_completeness auto

termination
proof (relation "measure (\<lambda>(p, t, s). weight s)")
  show "wf (measure (\<lambda>(p, t, s). weight s))" by simp
next
  fix p :: props and t :: int and s :: state and tm :: timer
  assume e: "earliest (pending s) = Some tm" and "due tm \<le> t"
  let ?f = "\<lambda>x. rank (job x)"
  let ?s' = "s\<lparr>pending := filter (\<lambda>x. tid x \<noteq> tid tm) (pending s), now := max (now s) (due tm)\<rparr>"
  have mem: "earliest xs = Some x \<Longrightarrow> x \<in> set xs" for xs x
    by (induction xs arbitrary: x) (auto split: option.splits if_splits)
  have le: "sum_list (map ?f (filter P xs)) \<le> sum_list (map ?f xs)" for P xs
    by (induction xs) auto
  have rm: "x \<in> set xs \<Longrightarrow>
        sum_list (map ?f (filter (\<lambda>z. tid z \<noteq> tid x) xs)) + ?f x \<le> sum_list (map ?f xs)" for x xs
  proof (induction xs)
    case Nil
    then show ?case by simp
  next
    case (Cons z xs)
    show ?case
    proof (cases "z = x")
      case True
      then show ?thesis using le [of "\<lambda>z. tid z \<noteq> tid x" xs] by simp
    next
      case False
      with Cons show ?thesis by auto
    qed
  qed
  have "weight ?s' + rank (job tm) \<le> weight s"
    using rm [OF mem [OF e]] by (simp add: weight_def)
  moreover have "weight (fire p k s0) < weight s0 + rank k" for k s0
    by (cases k)
       (auto simp: weight_def syncRefs_def debounced_def loaded_def framed_def setTimeout_def
          requestAnimationFrame_def Let_def split: option.splits)
  ultimately show "((p, t, fire p (job tm) ?s'), (p, t, s)) \<in> measure (\<lambda>(p, t, s). weight s)"
    using less_le_trans by fastforce
qed

declare advance.simps [simp del]

text \<open>An event arrives at a time: the clock is advanced to it, then the handler runs.\<close>

fun step :: "props \<Rightarrow> int \<times> event \<Rightarrow> state \<Rightarrow> state" where
  "step p (t, ev) s = handle p ev (advance p t s)"

fun run :: "props \<Rightarrow> (int \<times> event) list \<Rightarrow> state \<Rightarrow> state" where
  "run p [] s = s"
| "run p (e # es) s = run p es (step p e s)"

subsection \<open>Observations on states and runs\<close>

text \<open>The width of the window, the floor of its start, and the refs agreeing with the state.\<close>

definition width_ok :: "props \<Rightarrow> state \<Rightarrow> bool" where
  "width_ok p s = (endIndex s - startIndex s + 1 = windowSize p)"

definition nonneg :: "props \<Rightarrow> state \<Rightarrow> bool" where
  "nonneg p s = (0 \<le> startIndex s \<and> 0 \<le> startIndexRef s)"

definition synced :: "state \<Rightarrow> bool" where
  "synced s = (loadingRef s = isLoading s \<and> startIndexRef s = startIndex s)"

text \<open>
  The load episodes a run has started are the \<open>LoadStarted\<close> entries of its trace, the calls
  of \<open>onLoadMore\<close> the other entries.
\<close>

fun is_start :: "effect \<Rightarrow> bool" where
  "is_start (LoadStarted d) = True"
| "is_start (LoadMore d a b) = False"

definition episodes :: "state \<Rightarrow> nat" where
  "episodes s = length (filter is_start (trace s))"

definition callbacks :: "state \<Rightarrow> nat" where
  "callbacks s = length (filter (\<lambda>e. \<not> is_start e) (trace s))"

text \<open>Times in order, each less than \<open>D\<close> after the one before.\<close>

fun spaced :: "int \<Rightarrow> int list \<Rightarrow> bool" where
  "spaced D (t # u # ts) = (t \<le> u \<and> u - t < D \<and> spaced D (u # ts))"
| "spaced D ts = True"

definition edgeEvents :: "(int \<times> direction) list \<Rightarrow> (int \<times> event) list" where
  "edgeEvents tds = map (\<lambda>(t, d). (t, Edge d)) tds"

text \<open>
  The state \<open>s\<close> at time \<open>t\<close> with one debounce timer, armed at \<open>t\<close> under the handle \<open>n\<close>,
  as its only pending timer.
\<close>

definition armed :: "props \<Rightarrow> state \<Rightarrow> int \<Rightarrow> nat \<Rightarrow> direction \<Rightarrow> state" where
  "armed p s t n d =
     s\<lparr>debounceRef := Some n, now := t, nextId := Suc n,
       pending := [\<lparr>tid = n, due = t + max 0 (debounceDelay p), job = Debounce d\<rparr>]\<rparr>"

text \<open>The start index one shift away from \<open>a\<close>.\<close>

definition shifted :: "props \<Rightarrow> direction \<Rightarrow> int \<Rightarrow> int" where
  "shifted p d a = (case d of Down \<Rightarrow> a + batchSize p | Up \<Rightarrow> max 0 (a - batchSize p))"

fun is_frame :: "task \<Rightarrow> bool" where
  "is_frame (Frame d y) = True"
| "is_frame k = False"

text \<open>
  Which events the component can receive in a state. The top sentinel is rendered only
  while \<open>startIndex > 0\<close> (lines 419 to 427) and the top observer watches it only when it
  exists (lines 326 to 331), so the callback of line 304 calls \<open>loadMoreUp\<close> only in such a
  state. The bottom sentinel is always rendered, and the imperative handle and the user's
  scroll gesture are always at hand.
\<close>

fun deliverable :: "event \<Rightarrow> state \<Rightarrow> bool" where
  "deliverable (Edge Up) s = (0 < startIndex s)"
| "deliverable ev s = True"

text \<open>A timed sequence of events each of which the component can receive when it arrives.\<close>

fun receivable :: "props \<Rightarrow> (int \<times> event) list \<Rightarrow> state \<Rightarrow> bool" where
  "receivable p [] s = True"
| "receivable p ((t, ev) # es) s =
     (deliverable ev (advance p t s) \<and> receivable p es (step p (t, ev) s))"

text \<open>The tasks of an episode that runs without scroll management.\<close>

fun is_unmanaged :: "task \<Rightarrow> bool" where
  "is_unmanaged (Debounce d) = True"
| "is_unmanaged (Load d None) = True"
| "is_unmanaged k = False"

text \<open>
  Props used in examples: the defaults started further down the list, and the defaults
  without scroll management.
\<close>

definition propsFrom20 :: props where
  "propsFrom20 = defaultProps\<lparr>initialStartIndex := 20\<rparr>"

definition propsUnmanaged :: props where
  "propsUnmanaged = defaultProps\<lparr>disableScrollManagement := True\<rparr>"

section \<open>Properties of the event loop\<close>

lemmas handler_defs =
  syncRefs_def debounced_def loaded_def framed_def setTimeout_def clearTimeout_def
  requestAnimationFrame_def newStartIndex_def newScrollTop_def loadMoreDown_def loadMoreUp_def
  scrollToIndex_def reset_def

lemma earliest_mem: "earliest xs = Some t \<Longrightarrow> t \<in> set xs"
  by (induction xs arbitrary: t) (auto split: option.splits if_splits)

text \<open>
  A property kept by running any pending timer and by moving the clock is kept by
  \<open>advance\<close>.
\<close>

lemma advance_invariant:
  assumes f: "\<And>p s tm. P p s \<Longrightarrow> tm \<in> set (pending s) \<Longrightarrow>
                P p (fire p (job tm)
                      (s\<lparr>pending := filter (\<lambda>x. tid x \<noteq> tid tm) (pending s),
                         now := max (now s) (due tm)\<rparr>))"
      and n: "\<And>p s n. P p s \<Longrightarrow> P p (s\<lparr>now := n\<rparr>)"
  shows "P p s \<Longrightarrow> P p (advance p t s)"
proof (induction p t s rule: advance.induct)
  case (1 p t s)
  show ?case
  proof (cases "earliest (pending s)")
    case None
    then show ?thesis using n [OF "1.prems"] by (subst advance.simps) simp
  next
    case (Some tm)
    show ?thesis
    proof (cases "due tm \<le> t")
      case True
      have "P p (fire p (job tm)
                  (s\<lparr>pending := filter (\<lambda>x. tid x \<noteq> tid tm) (pending s),
                     now := max (now s) (due tm)\<rparr>))"
        by (rule f [OF "1.prems" earliest_mem [OF Some]])
      then have "P p (advance p t
                  (fire p (job tm)
                    (s\<lparr>pending := filter (\<lambda>x. tid x \<noteq> tid tm) (pending s),
                       now := max (now s) (due tm)\<rparr>)))"
        by (rule "1.IH" [OF Some True])
      then show ?thesis using Some True by (subst advance.simps) simp
    next
      case False
      then show ?thesis using Some n [OF "1.prems"] by (subst advance.simps) simp
    qed
  qed
qed

lemma advance_nil: "pending s = [] \<Longrightarrow> advance p t s = s\<lparr>now := max (now s) t\<rparr>"
  by (subst advance.simps) simp

lemma advance_single_wait:
  "pending s = [tm] \<Longrightarrow> t < due tm \<Longrightarrow> advance p t s = s\<lparr>now := max (now s) t\<rparr>"
  by (subst advance.simps) simp

lemma advance_single_fire:
  "pending s = [tm] \<Longrightarrow> due tm \<le> t \<Longrightarrow>
   advance p t s = advance p t (fire p (job tm) (s\<lparr>pending := [], now := max (now s) (due tm)\<rparr>))"
  by (subst advance.simps) simp

subsection \<open>The width of the window\<close>

lemma width_fire: "width_ok p s \<Longrightarrow> width_ok p (fire p k s)"
  by (cases k) (auto simp: width_ok_def handler_defs Let_def split: option.splits direction.splits)

lemma width_handle: "width_ok p s \<Longrightarrow> width_ok p (handle p ev s)"
  by (cases "(p, ev, s)" rule: handle.cases)
     (auto simp: width_ok_def handler_defs Let_def split: option.splits)

lemma width_advance: "width_ok p s \<Longrightarrow> width_ok p (advance p t s)"
proof (erule advance_invariant [where P = width_ok, rotated 2])
  fix p :: props and s :: state and tm :: timer
  assume "width_ok p s"
  then have "width_ok p (s\<lparr>pending := filter (\<lambda>x. tid x \<noteq> tid tm) (pending s),
                           now := max (now s) (due tm)\<rparr>)"
    by (simp add: width_ok_def)
  then show "width_ok p (fire p (job tm)
               (s\<lparr>pending := filter (\<lambda>x. tid x \<noteq> tid tm) (pending s),
                  now := max (now s) (due tm)\<rparr>))"
    by (rule width_fire)
qed (simp add: width_ok_def)

lemma width_run: "width_ok p s \<Longrightarrow> width_ok p (run p evs s)"
  by (induction evs arbitrary: s) (auto simp: width_handle width_advance)

subsection \<open>The floor of the start index\<close>

lemma nonneg_fire: "0 \<le> batchSize p \<Longrightarrow> nonneg p s \<Longrightarrow> nonneg p (fire p k s)"
  by (cases k) (auto simp: nonneg_def handler_defs Let_def split: option.splits direction.splits)

lemma nonneg_handle: "0 \<le> initialStartIndex p \<Longrightarrow> nonneg p s \<Longrightarrow> nonneg p (handle p ev s)"
  by (cases "(p, ev, s)" rule: handle.cases)
     (auto simp: nonneg_def handler_defs Let_def split: option.splits)

lemma nonneg_advance:
  assumes "0 \<le> batchSize p" and "nonneg p s"
  shows "nonneg p (advance p t s)"
proof -
  let ?P = "\<lambda>(p::props) (s::state). 0 \<le> batchSize p \<and> nonneg p s"
  have "?P p s" using assms by simp
  then have "?P p (advance p t s)"
  proof (rule advance_invariant [where P = ?P, rotated 2])
    fix p :: props and s :: state and tm :: timer
    assume P: "?P p s"
    then have "nonneg p (s\<lparr>pending := filter (\<lambda>x. tid x \<noteq> tid tm) (pending s),
                           now := max (now s) (due tm)\<rparr>)"
      by (simp add: nonneg_def)
    with P show "?P p (fire p (job tm)
               (s\<lparr>pending := filter (\<lambda>x. tid x \<noteq> tid tm) (pending s),
                  now := max (now s) (due tm)\<rparr>))"
      by (simp add: nonneg_fire)
  qed (simp add: nonneg_def)
  then show ?thesis by simp
qed

lemma nonneg_run:
  "0 \<le> initialStartIndex p \<Longrightarrow> 0 \<le> batchSize p \<Longrightarrow> nonneg p s \<Longrightarrow> nonneg p (run p evs s)"
  by (induction evs arbitrary: s) (auto simp: nonneg_handle nonneg_advance)

subsection \<open>The refs follow the state\<close>

lemma synced_fire: "synced s \<Longrightarrow> synced (fire p k s)"
  by (cases k) (auto simp: synced_def handler_defs Let_def split: option.splits direction.splits)

lemma synced_handle: "synced s \<Longrightarrow> synced (handle p ev s)"
  by (cases "(p, ev, s)" rule: handle.cases)
     (auto simp: synced_def handler_defs Let_def split: option.splits)

lemma synced_advance: "synced s \<Longrightarrow> synced (advance p t s)"
proof (erule advance_invariant [where P = "\<lambda>p. synced", rotated 2])
  fix p :: props and s :: state and tm :: timer
  assume "synced s"
  then have "synced (s\<lparr>pending := filter (\<lambda>x. tid x \<noteq> tid tm) (pending s),
                       now := max (now s) (due tm)\<rparr>)"
    by (simp add: synced_def)
  then show "synced (fire p (job tm)
               (s\<lparr>pending := filter (\<lambda>x. tid x \<noteq> tid tm) (pending s),
                  now := max (now s) (due tm)\<rparr>))"
    by (rule synced_fire)
qed (simp add: synced_def)

lemma synced_run: "synced s \<Longrightarrow> synced (run p evs s)"
  by (induction evs arbitrary: s) (auto simp: synced_handle synced_advance)

lemma synced_reachable: "synced (run p evs (mount p))"
  by (rule synced_run) (simp add: synced_def mount_def)

subsection \<open>Edge triggers in quick succession\<close>

lemma first_edge:
  assumes "pending s = []" and "\<not> loadingRef s" and "now s \<le> t"
      and "d = Up \<longrightarrow> 0 < startIndexRef s"
  shows "step p (t, Edge d) s = armed p s t (nextId s) d"
  using assms
  by (cases d)
     (auto simp: advance_nil armed_def loadMoreDown_def loadMoreUp_def setTimeout_def
        clearTimeout_def Let_def max_def split: option.splits)

lemma next_edge:
  assumes "\<not> loadingRef s" and "t \<le> t'" and "t' - t < debounceDelay p"
      and "d' = Up \<longrightarrow> 0 < startIndexRef s"
  shows "step p (t', Edge d') (armed p s t n d) = armed p s t' (Suc n) d'"
proof -
  have "advance p t' (armed p s t n d) = (armed p s t n d)\<lparr>now := t'\<rparr>"
    using assms(2,3)
    by (subst advance_single_wait [where tm = "\<lparr>tid = n, due = t + max 0 (debounceDelay p), job = Debounce d\<rparr>"])
       (auto simp: armed_def max_def)
  then show ?thesis
    using assms(1,4)
    by (cases d')
       (auto simp: armed_def loadMoreDown_def loadMoreUp_def setTimeout_def
          clearTimeout_def Let_def max_def)
qed

lemma frames_only_advance:
  assumes "\<forall>tm \<in> set (pending s). is_frame (job tm)"
  shows "startIndex (advance p T s) = startIndex s \<and> trace (advance p T s) = trace s"
proof -
  let ?P = "\<lambda>(p::props) (s'::state). (\<forall>tm \<in> set (pending s'). is_frame (job tm))
                \<and> startIndex s' = startIndex s \<and> trace s' = trace s"
  have "?P p s" using assms by simp
  then have "?P p (advance p T s)"
  proof (rule advance_invariant [where P = ?P, rotated 2])
    fix p s' tm
    assume P: "?P p s'" and m: "tm \<in> set (pending s')"
    then obtain d y where "job tm = Frame d y" by (cases "job tm") auto
    then show "?P p (fire p (job tm) (s'\<lparr>pending := filter (\<lambda>x. tid x \<noteq> tid tm) (pending s'), now := max (now s') (due tm)\<rparr>))"
      using P by (simp add: framed_def)
  qed simp
  then show ?thesis by simp
qed

lemma run_armed:
  assumes "\<not> loadingRef s" and "Up \<in> snd ` set tds \<longrightarrow> 0 < startIndexRef s"
      and "spaced (debounceDelay p) (t # map fst tds)"
  shows "\<exists>n'. run p (edgeEvents tds) (armed p s t n d)
               = armed p s (fst (last ((t, d) # tds))) n' (snd (last ((t, d) # tds)))"
  using assms(2,3)
proof (induction tds arbitrary: t n d)
  case Nil
  then show ?case by (auto simp: edgeEvents_def)
next
  case (Cons a tds)
  obtain t' d' where a: "a = (t', d')" by (cases a)
  have "step p (t', Edge d') (armed p s t n d) = armed p s t' (Suc n) d'"
    using Cons.prems assms(1) a by (intro next_edge) auto
  moreover have "\<exists>n'. run p (edgeEvents tds) (armed p s t' (Suc n) d')
               = armed p s (fst (last ((t', d') # tds))) n' (snd (last ((t', d') # tds)))"
    using Cons.prems a by (intro Cons.IH) auto
  ultimately show ?case using a by (simp add: edgeEvents_def)
qed

lemma run_edges:
  assumes "pending s = []" and "\<not> loadingRef s" and "tds \<noteq> []" and "now s \<le> fst (hd tds)"
      and "spaced (debounceDelay p) (map fst tds)"
      and "Up \<in> snd ` set tds \<longrightarrow> 0 < startIndexRef s"
  shows "\<exists>n. run p (edgeEvents tds) s = armed p s (fst (last tds)) n (snd (last tds))"
proof -
  obtain t d rest where tds: "tds = (t, d) # rest" using assms(3) by (cases tds) auto
  have "step p (t, Edge d) s = armed p s t (nextId s) d"
    using assms tds by (intro first_edge) auto
  moreover have "\<exists>n'. run p (edgeEvents rest) (armed p s t (nextId s) d)
               = armed p s (fst (last ((t, d) # rest))) n' (snd (last ((t, d) # rest)))"
    using assms tds by (intro run_armed) auto
  ultimately show ?thesis using tds by (simp add: edgeEvents_def)
qed

text \<open>
  On an idle controller, a spaced sequence of edge triggers that can all be received has
  top edge triggers only if the start index is positive: until the last trigger no timer
  runs, so every trigger meets the start index the sequence began with.
\<close>

lemma receivable_armed:
  assumes "\<not> loadingRef s" and "startIndexRef s = startIndex s"
      and "spaced (debounceDelay p) (t # map fst tds)"
      and "receivable p (edgeEvents tds) (armed p s t n d)"
  shows "Up \<in> snd ` set tds \<longrightarrow> 0 < startIndex s"
  using assms(3,4)
proof (induction tds arbitrary: t n d)
  case Nil
  then show ?case by simp
next
  case (Cons a tds)
  obtain t' d' where a: "a = (t', d')" by (cases a)
  have sp: "t \<le> t'" "t' - t < debounceDelay p" "spaced (debounceDelay p) (t' # map fst tds)"
    using Cons.prems(1) a by auto
  have "advance p t' (armed p s t n d) = (armed p s t n d)\<lparr>now := max t t'\<rparr>"
    using sp
    by (subst advance_single_wait [where tm = "\<lparr>tid = n, due = t + max 0 (debounceDelay p), job = Debounce d\<rparr>"])
       (auto simp: armed_def)
  moreover have "deliverable (Edge d') (advance p t' (armed p s t n d))"
    using Cons.prems(2) a by (simp add: edgeEvents_def)
  ultimately have el: "d' = Up \<longrightarrow> 0 < startIndex s"
    by (cases d') (auto simp: armed_def)
  then have "step p (t', Edge d') (armed p s t n d) = armed p s t' (Suc n) d'"
    using sp assms(1,2) by (intro next_edge) auto
  then have "receivable p (edgeEvents tds) (armed p s t' (Suc n) d')"
    using Cons.prems(2) a by (simp add: edgeEvents_def)
  then have "Up \<in> snd ` set tds \<longrightarrow> 0 < startIndex s"
    using sp(3) by (intro Cons.IH)
  then show ?case using el a by auto
qed

lemma receivable_idle:
  assumes "pending s = []" and "\<not> loadingRef s" and "startIndexRef s = startIndex s"
      and "tds \<noteq> [] \<longrightarrow> now s \<le> fst (hd tds)"
      and "spaced (debounceDelay p) (map fst tds)"
      and "receivable p (edgeEvents tds) s"
  shows "Up \<in> snd ` set tds \<longrightarrow> 0 < startIndex s"
proof (cases tds)
  case Nil
  then show ?thesis by simp
next
  case (Cons a rest)
  obtain t d where a: "a = (t, d)" by (cases a)
  have "advance p t s = s\<lparr>now := max (now s) t\<rparr>"
    using assms(1) by (rule advance_nil)
  moreover have "deliverable (Edge d) (advance p t s)"
    using assms(6) Cons a by (simp add: edgeEvents_def)
  ultimately have el: "d = Up \<longrightarrow> 0 < startIndex s"
    by (cases d) auto
  then have "step p (t, Edge d) s = armed p s t (nextId s) d"
    using assms(1-4) Cons a by (intro first_edge) auto
  then have "receivable p (edgeEvents rest) (armed p s t (nextId s) d)"
    using assms(6) Cons a by (simp add: edgeEvents_def)
  then have "Up \<in> snd ` set rest \<longrightarrow> 0 < startIndex s"
    using assms(2,3,5) Cons a by (intro receivable_armed) auto
  then show ?thesis using el Cons a by auto
qed

lemma armed_outcome:
  fixes p s t n d T
  defines "S \<equiv> advance p T (armed p s t n d)"
      and "D \<equiv> max 0 (debounceDelay p)"
      and "L \<equiv> max 0 (loadingDelay p)"
      and "a \<equiv> shifted p d (startIndex s)"
  shows "(T < t + D \<and> trace S = trace s \<and> startIndex S = startIndex s)
       \<or> (t + D \<le> T \<and> T < t + D + L \<and> trace S = trace s @ [LoadStarted d] \<and> startIndex S = startIndex s)
       \<or> (t + D + L \<le> T \<and> startIndex S = a
           \<and> trace S = trace s @ [LoadStarted d] @ (if onLoadMore p then [LoadMore d a (a + windowSize p - 1)] else []))"
proof (cases "T < t + D")
  case True
  have "S = (armed p s t n d)\<lparr>now := max t T\<rparr>"
    unfolding S_def using True
    by (subst advance_single_wait [where tm = "\<lparr>tid = n, due = t + D, job = Debounce d\<rparr>"])
       (auto simp: armed_def D_def)
  then show ?thesis using True by (simp add: armed_def)
next
  case False
  define s2 where "s2 = fire p (Debounce d) ((armed p s t n d)\<lparr>pending := [], now := max t (t + D)\<rparr>)"
  have S2: "S = advance p T s2"
    unfolding S_def s2_def using False
    by (subst advance_single_fire [where tm = "\<lparr>tid = n, due = t + D, job = Debounce d\<rparr>"])
       (auto simp: armed_def D_def)
  have tr2: "trace s2 = trace s @ [LoadStarted d]"
    and st2: "startIndex s2 = startIndex s" and ref2: "startIndexRef s2 = startIndex s"
    and now2: "now s2 = t + D"
    by (auto simp: s2_def armed_def syncRefs_def debounced_def setTimeout_def Let_def D_def
          split: option.splits)
  have "\<exists>cap. pending s2 = [\<lparr>tid = Suc n, due = t + D + L, job = Load d cap\<rparr>]"
    by (auto simp: s2_def armed_def syncRefs_def debounced_def setTimeout_def Let_def D_def L_def
          split: option.splits)
  then obtain cap where p2: "pending s2 = [\<lparr>tid = Suc n, due = t + D + L, job = Load d cap\<rparr>]" ..
  show ?thesis
  proof (cases "T < t + D + L")
    case True
    have "S = s2\<lparr>now := max (now s2) T\<rparr>"
      unfolding S2 using True p2 by (subst advance_single_wait) auto
    then show ?thesis using True False tr2 st2 by simp
  next
    case F2: False
    define s3 where "s3 = fire p (Load d cap) (s2\<lparr>pending := [], now := max (now s2) (t + D + L)\<rparr>)"
    have S3: "S = advance p T s3"
      unfolding S2 s3_def using F2 p2 by (subst advance_single_fire) auto
    have st3: "startIndex s3 = a"
      by (cases cap; cases d)
         (auto simp: s3_def a_def shifted_def ref2 syncRefs_def loaded_def newStartIndex_def
            requestAnimationFrame_def setTimeout_def Let_def)
    have tr3: "trace s3 = trace s @ [LoadStarted d] @ (if onLoadMore p then [LoadMore d a (a + windowSize p - 1)] else [])"
      by (cases cap; cases d)
         (auto simp: s3_def a_def shifted_def ref2 tr2 syncRefs_def loaded_def newStartIndex_def
            requestAnimationFrame_def setTimeout_def Let_def)
    have fr3: "\<forall>tm \<in> set (pending s3). is_frame (job tm)"
      by (cases cap)
         (auto simp: s3_def syncRefs_def loaded_def requestAnimationFrame_def setTimeout_def Let_def)
    have "startIndex S = startIndex s3 \<and> trace S = trace s3"
      unfolding S3 by (rule frames_only_advance [OF fr3])
    then show ?thesis using F2 st3 tr3 by simp
  qed
qed

lemma armed_scroll:
  fixes p s t n d T y
  defines "D \<equiv> max 0 (debounceDelay p)"
      and "L \<equiv> max 0 (loadingDelay p)"
      and "F \<equiv> max 0 (frameDelay p)"
  assumes en: "\<not> disableScrollManagement p" and sc: "scrollTop s = Some y"
      and late: "t + D + L + F \<le> T"
  shows "scrollTop (advance p T (armed p s t n d)) = Some (newScrollTop p d y)"
proof -
  have nn: "0 \<le> D" "0 \<le> L" "0 \<le> F" by (simp_all add: D_def L_def F_def)
  define s2 where "s2 = fire p (Debounce d) ((armed p s t n d)\<lparr>pending := [], now := max t (t + D)\<rparr>)"
  have p2: "pending s2 = [\<lparr>tid = Suc n, due = t + D + L, job = Load d (Some y)\<rparr>]"
    and now2: "now s2 = t + D"
    using en sc nn
    by (auto simp: s2_def armed_def syncRefs_def debounced_def setTimeout_def Let_def L_def)
  define s3 where "s3 = fire p (Load d (Some y)) (s2\<lparr>pending := [], now := max (now s2) (t + D + L)\<rparr>)"
  have "\<exists>i. pending s3 = [\<lparr>tid = i, due = t + D + L + F, job = Frame d y\<rparr>]"
    using nn now2
    by (auto simp: s3_def syncRefs_def loaded_def requestAnimationFrame_def setTimeout_def Let_def F_def)
  then obtain i where p3: "pending s3 = [\<lparr>tid = i, due = t + D + L + F, job = Frame d y\<rparr>]" ..
  define s4 where "s4 = fire p (Frame d y) (s3\<lparr>pending := [], now := max (now s3) (t + D + L + F)\<rparr>)"
  have p4: "pending s4 = []" and sc4: "scrollTop s4 = Some (newScrollTop p d y)"
    by (auto simp: s4_def framed_def)
  have "advance p T (armed p s t n d) = advance p T s2"
    unfolding s2_def using late nn
    by (subst advance_single_fire [where tm = "\<lparr>tid = n, due = t + D, job = Debounce d\<rparr>"])
       (auto simp: armed_def D_def)
  also have "\<dots> = advance p T s3"
    unfolding s3_def using late nn p2 by (subst advance_single_fire) auto
  also have "\<dots> = advance p T s4"
    unfolding s4_def using late nn p3 by (subst advance_single_fire) auto
  also have "\<dots> = s4\<lparr>now := max (now s4) T\<rparr>"
    using p4 by (rule advance_nil)
  finally show ?thesis using sc4 by simp
qed

subsection \<open>Episodes without scroll management\<close>

lemma unmanaged_advance:
  assumes "disableScrollManagement p" and "\<forall>tm \<in> set (pending s). is_unmanaged (job tm)"
  shows "scrollTop (advance p T s) = scrollTop s"
proof -
  let ?P = "\<lambda>(p::props) (s'::state). disableScrollManagement p
                \<and> (\<forall>tm \<in> set (pending s'). is_unmanaged (job tm))
                \<and> scrollTop s' = scrollTop s"
  have "?P p s" using assms by simp
  then have "?P p (advance p T s)"
  proof (rule advance_invariant [where P = ?P, rotated 2])
    fix p :: props and s' :: state and tm :: timer
    assume P: "?P p s'" and m: "tm \<in> set (pending s')"
    then have "is_unmanaged (job tm)" by simp
    then consider d where "job tm = Debounce d" | d where "job tm = Load d None"
      by (cases "job tm" rule: is_unmanaged.cases) auto
    then show "?P p (fire p (job tm) (s'\<lparr>pending := filter (\<lambda>x. tid x \<noteq> tid tm) (pending s'), now := max (now s') (due tm)\<rparr>))"
    proof cases
      case 1
      then show ?thesis using P
        by (auto simp: syncRefs_def debounced_def setTimeout_def Let_def split: option.splits)
    next
      case 2
      then show ?thesis using P
        by (auto simp: syncRefs_def loaded_def Let_def)
    qed
  qed simp
  then show ?thesis by simp
qed

section \<open>The claims\<close>

text \<open>
  Each handler of the source runs to its end before the next one starts, and the state it
  sets is rendered, with the refs updated from it, before the next handler reads them;
  \<open>setStartIndex\<close> and \<open>setEndIndex\<close> of one handler are one step. The props stay fixed
  over a run, and the component stays mounted.
\<close>

subsection \<open>C1: the width of the window\<close>

text \<open>
  C1. In every state the controller reaches from mount, through any timed sequence of edge
  triggers, \<open>scrollToIndex\<close> and \<open>reset\<close> calls, scroll gestures and elapsed timers (so
  after any number of completed load episodes), \<open>endIndex - startIndex + 1\<close> is the
  \<open>windowSize\<close> of the props.
\<close>

theorem width_invariant:
  "endIndex (run p evs (mount p)) - startIndex (run p evs (mount p)) + 1 = windowSize p"
proof -
  have "width_ok p (mount p)" by (simp add: width_ok_def mount_def)
  then have "width_ok p (run p evs (mount p))" by (rule width_run)
  then show ?thesis by (simp add: width_ok_def)
qed

text \<open>
  A run with a completed downward episode, a jump, a completed upward episode and a reset
  ends on the window \<open>(0, 29)\<close> of width 30.
\<close>

theorem width_invariant_witness:
  "getCurrentRange
     (run defaultProps [(0, Edge Down), (300, ScrollToIndex 105), (400, Edge Up), (900, Reset)]
        (mount defaultProps)) = (0, 29)
   \<and> 29 - 0 + 1 = windowSize defaultProps"
proof -
  have "run defaultProps [(0, Edge Down), (300, ScrollToIndex 105), (400, Edge Up), (900, Reset)]
          (mount defaultProps)
        = \<lparr>startIndex = 0, endIndex = 29, isLoading = False, loadingRef = False,
           startIndexRef = 0, debounceRef = Some 4, scrollTop = Some 0, now = 900, nextId = 7,
           pending = [],
           trace = [LoadStarted Down, LoadMore Down 10 39, LoadStarted Up, LoadMore Up 80 109]\<rparr>"
    by code_simp
  then show ?thesis
    using width_invariant [of defaultProps
        "[(0, Edge Down), (300, ScrollToIndex 105), (400, Edge Up), (900, Reset)]"]
    by (simp add: getCurrentRange_def defaultProps_def)
qed

subsection \<open>C2: the floor of the start index\<close>

text \<open>
  C2 as stated fails: no props are rejected, and a negative \<open>initialStartIndex\<close> is the
  start index at mount and again after \<open>reset\<close>, while a negative \<open>batchSize\<close> makes a
  downward shift from 0 end below 0.
\<close>

theorem start_nonneg_counterexample:
  "startIndex (mount (defaultProps\<lparr>initialStartIndex := - 5\<rparr>)) = - 5
   \<and> startIndex (run (defaultProps\<lparr>batchSize := - 10\<rparr>) [(0, Edge Down), (1000, Tick)]
                   (mount (defaultProps\<lparr>batchSize := - 10\<rparr>))) = - 10
   \<and> startIndex (handle (defaultProps\<lparr>initialStartIndex := - 5\<rparr>) Reset
                   (handle (defaultProps\<lparr>initialStartIndex := - 5\<rparr>) (ScrollToIndex 105)
                      (mount (defaultProps\<lparr>initialStartIndex := - 5\<rparr>)))) = - 5"
  by code_simp

text \<open>
  C2, amended. For props with \<open>initialStartIndex \<ge> 0\<close> and \<open>batchSize \<ge> 0\<close>, the start
  index is at least 0 in every state reached from mount, and each operation that changes
  the window (the downward and the upward shift of a loading callback, \<open>scrollToIndex\<close>,
  \<open>reset\<close>) takes a state with start index at least 0 to one with start index at least 0.
\<close>

theorem start_nonneg:
  assumes "0 \<le> initialStartIndex p" and "0 \<le> batchSize p"
  shows "0 \<le> startIndex (run p evs (mount p))
    \<and> (startIndexRef s = startIndex s \<and> 0 \<le> startIndex s \<longrightarrow>
         0 \<le> startIndex (fire p (Load Down cap) s)
         \<and> 0 \<le> startIndex (fire p (Load Up cap) s)
         \<and> 0 \<le> startIndex (handle p (ScrollToIndex i) s)
         \<and> 0 \<le> startIndex (handle p Reset s))"
proof -
  have "nonneg p (mount p)" using assms by (simp add: nonneg_def mount_def)
  then have "nonneg p (run p evs (mount p))" using assms by (simp add: nonneg_run)
  then have 1: "0 \<le> startIndex (run p evs (mount p))" by (simp add: nonneg_def)
  have 2: "0 \<le> startIndex (fire p (Load Down cap) s) \<and> 0 \<le> startIndex (fire p (Load Up cap) s)"
    if "startIndexRef s = startIndex s" "0 \<le> startIndex s"
    using that assms by (auto simp: handler_defs Let_def split: option.splits)
  have 3: "0 \<le> startIndex (handle p (ScrollToIndex i) s)" if "0 \<le> startIndex s"
    using that by (simp add: handler_defs Let_def split: option.splits)
  have 4: "0 \<le> startIndex (handle p Reset s)"
    using assms by (simp add: handler_defs Let_def split: option.splits)
  from 1 2 3 4 show ?thesis by blast
qed

theorem start_nonneg_witness:
  "0 \<le> initialStartIndex propsFrom20 \<and> 0 \<le> batchSize propsFrom20
   \<and> startIndexRef (mount propsFrom20) = startIndex (mount propsFrom20)
   \<and> 0 \<le> startIndex (mount propsFrom20)
   \<and> 0 \<le> startIndex (run propsFrom20 [(0, Edge Up), (300, Edge Up), (600, Edge Up), (900, Tick)]
                         (mount propsFrom20))
   \<and> 0 \<le> startIndex (fire propsFrom20 (Load Down None) (mount propsFrom20))
   \<and> 0 \<le> startIndex (fire propsFrom20 (Load Up None) (mount propsFrom20))
   \<and> 0 \<le> startIndex (handle propsFrom20 (ScrollToIndex (- 3)) (mount propsFrom20))
   \<and> 0 \<le> startIndex (handle propsFrom20 Reset (mount propsFrom20))"
proof -
  have h: "0 \<le> initialStartIndex propsFrom20" "0 \<le> batchSize propsFrom20"
    by (simp_all add: propsFrom20_def defaultProps_def)
  have g: "startIndexRef (mount propsFrom20) = startIndex (mount propsFrom20)
           \<and> 0 \<le> startIndex (mount propsFrom20)"
    by (simp add: mount_def propsFrom20_def defaultProps_def)
  show ?thesis
    using h g
      start_nonneg [OF h, of "[(0, Edge Up), (300, Edge Up), (600, Edge Up), (900, Tick)]"
        "mount propsFrom20" None "- 3"]
    by blast
qed

subsection \<open>C3: the arithmetic of a shift\<close>

text \<open>
  C3. In a state whose ref follows its start index (every reachable state is one, by
  \<open>synced_reachable\<close>), the loading callback of a downward episode sets the start to
  \<open>startIndex + batchSize\<close>, with no upper bound, and the one of an upward episode to
  \<open>max 0 (startIndex - batchSize)\<close>; both set the end to the new start plus
  \<open>windowSize - 1\<close>. From a start in \<open>[0, batchSize)\<close> the upward shift ends at 0 and so
  moves by less than \<open>batchSize\<close>.
\<close>

theorem shift_arithmetic:
  assumes "startIndexRef s = startIndex s"
  shows "startIndex (fire p (Load Down cap) s) = startIndex s + batchSize p
    \<and> endIndex (fire p (Load Down cap) s) = startIndex (fire p (Load Down cap) s) + windowSize p - 1
    \<and> startIndex (fire p (Load Up cap) s) = max 0 (startIndex s - batchSize p)
    \<and> endIndex (fire p (Load Up cap) s) = startIndex (fire p (Load Up cap) s) + windowSize p - 1
    \<and> (0 \<le> startIndex s \<and> startIndex s < batchSize p \<longrightarrow>
         startIndex (fire p (Load Up cap) s) = 0
         \<and> startIndex s - startIndex (fire p (Load Up cap) s) < batchSize p)"
  using assms by (cases cap) (auto simp: handler_defs Let_def)

text \<open>
  From the window \<open>(5, 34)\<close> with batch 10: down to \<open>(15, 44)\<close>, up only to \<open>(0, 29)\<close>.
\<close>

theorem shift_arithmetic_witness:
  "startIndexRef (mount (defaultProps\<lparr>initialStartIndex := 5\<rparr>))
     = startIndex (mount (defaultProps\<lparr>initialStartIndex := 5\<rparr>))
   \<and> 0 \<le> startIndex (mount (defaultProps\<lparr>initialStartIndex := 5\<rparr>))
   \<and> startIndex (mount (defaultProps\<lparr>initialStartIndex := 5\<rparr>))
        < batchSize (defaultProps\<lparr>initialStartIndex := 5\<rparr>)
   \<and> getCurrentRange (fire (defaultProps\<lparr>initialStartIndex := 5\<rparr>) (Load Down None)
        (mount (defaultProps\<lparr>initialStartIndex := 5\<rparr>))) = (15, 44)
   \<and> getCurrentRange (fire (defaultProps\<lparr>initialStartIndex := 5\<rparr>) (Load Up None)
        (mount (defaultProps\<lparr>initialStartIndex := 5\<rparr>))) = (0, 29)"
proof -
  have h: "startIndexRef (mount (defaultProps\<lparr>initialStartIndex := 5\<rparr>))
            = startIndex (mount (defaultProps\<lparr>initialStartIndex := 5\<rparr>))"
    by (simp add: mount_def)
  show ?thesis
    using h shift_arithmetic [OF h, of "defaultProps\<lparr>initialStartIndex := 5\<rparr>" None]
    by (simp add: getCurrentRange_def mount_def defaultProps_def)
qed

subsection \<open>C4: the compensated offset\<close>

text \<open>
  C4. With scroll management enabled and the container attached at offset \<open>y\<close> when the
  debounce callback runs, that callback arms the loading callback with \<open>y\<close> captured; the
  loading callback, in whatever state it runs, arms the frame callback with the same \<open>y\<close>;
  and the frame callback, in whatever state it runs, writes \<open>max 0 (y - batchSize * itemHeight)\<close>
  for a downward episode and \<open>y + batchSize * itemHeight\<close> for an upward one. Hence an edge
  trigger on an idle controller at offset \<open>y\<close>, left alone until the debounce delay, the
  loading delay and the frame delay have passed, ends with these offsets.
\<close>

theorem scroll_compensation:
  assumes "\<not> disableScrollManagement p" and "scrollTop s = Some y"
  shows "pending (fire p (Debounce d) s)
           = pending s @ [\<lparr>tid = nextId s, due = now s + max 0 (loadingDelay p), job = Load d (Some y)\<rparr>]
    \<and> pending (fire p (Load d (Some y)) s1)
           = pending s1 @ [\<lparr>tid = nextId s1, due = now s1 + max 0 (frameDelay p), job = Frame d y\<rparr>]
    \<and> scrollTop (fire p (Frame Down y) s2) = Some (max 0 (y - batchSize p * itemHeight p))
    \<and> scrollTop (fire p (Frame Up y) s2) = Some (y + batchSize p * itemHeight p)
    \<and> (pending s = [] \<and> \<not> loadingRef s \<and> now s \<le> t
         \<and> t + max 0 (debounceDelay p) + max 0 (loadingDelay p) + max 0 (frameDelay p) \<le> T \<longrightarrow>
         scrollTop (advance p T (step p (t, Edge Down) s)) = Some (max 0 (y - batchSize p * itemHeight p))
         \<and> (0 < startIndexRef s \<longrightarrow>
             scrollTop (advance p T (step p (t, Edge Up) s)) = Some (y + batchSize p * itemHeight p)))"
proof -
  have chain: "pending (fire p (Debounce d) s)
           = pending s @ [\<lparr>tid = nextId s, due = now s + max 0 (loadingDelay p), job = Load d (Some y)\<rparr>]
    \<and> pending (fire p (Load d (Some y)) s1)
           = pending s1 @ [\<lparr>tid = nextId s1, due = now s1 + max 0 (frameDelay p), job = Frame d y\<rparr>]
    \<and> scrollTop (fire p (Frame Down y) s2) = Some (max 0 (y - batchSize p * itemHeight p))
    \<and> scrollTop (fire p (Frame Up y) s2) = Some (y + batchSize p * itemHeight p)"
    using assms by (auto simp: handler_defs Let_def)
  have run: "scrollTop (advance p T (step p (t, Edge d') s)) = Some (newScrollTop p d' y)"
    if "pending s = []" "\<not> loadingRef s" "now s \<le> t" "d' = Up \<longrightarrow> 0 < startIndexRef s"
       "t + max 0 (debounceDelay p) + max 0 (loadingDelay p) + max 0 (frameDelay p) \<le> T" for d'
  proof -
    have "step p (t, Edge d') s = armed p s t (nextId s) d'"
      using that by (intro first_edge) auto
    then show ?thesis
      using armed_scroll [OF assms(1) assms(2) that(5), of "nextId s" d'] by simp
  qed
  show ?thesis
    using chain run [of Down] run [of Up] by (auto simp: newScrollTop_def)
qed

text \<open>
  From offset 700 with batch 10 and item height 50: 200 after a downward episode, 1200 after an upward one.
\<close>

theorem scroll_compensation_witness:
  "\<not> disableScrollManagement propsFrom20
   \<and> scrollTop (handle propsFrom20 (UserScroll 700) (mount propsFrom20)) = Some 700
   \<and> pending (handle propsFrom20 (UserScroll 700) (mount propsFrom20)) = []
   \<and> \<not> loadingRef (handle propsFrom20 (UserScroll 700) (mount propsFrom20))
   \<and> now (handle propsFrom20 (UserScroll 700) (mount propsFrom20)) \<le> 0
   \<and> 0 + max 0 (debounceDelay propsFrom20) + max 0 (loadingDelay propsFrom20)
        + max 0 (frameDelay propsFrom20) \<le> 1000
   \<and> 0 < startIndexRef (handle propsFrom20 (UserScroll 700) (mount propsFrom20))
   \<and> scrollTop (advance propsFrom20 1000
        (step propsFrom20 (0, Edge Down) (handle propsFrom20 (UserScroll 700) (mount propsFrom20))))
       = Some 200
   \<and> scrollTop (advance propsFrom20 1000
        (step propsFrom20 (0, Edge Up) (handle propsFrom20 (UserScroll 700) (mount propsFrom20))))
       = Some 1200"
proof -
  let ?s = "handle propsFrom20 (UserScroll 700) (mount propsFrom20)"
  have h1: "\<not> disableScrollManagement propsFrom20"
    by (simp add: propsFrom20_def defaultProps_def)
  have h2: "scrollTop ?s = Some 700" by (simp add: mount_def)
  have h3: "pending ?s = [] \<and> \<not> loadingRef ?s \<and> now ?s \<le> 0 \<and> 0 < startIndexRef ?s"
    by (simp add: mount_def propsFrom20_def defaultProps_def)
  have h4: "0 + max 0 (debounceDelay propsFrom20) + max 0 (loadingDelay propsFrom20)
              + max 0 (frameDelay propsFrom20) \<le> (1000::int)"
    by (simp add: propsFrom20_def defaultProps_def)
  have v: "batchSize propsFrom20 * itemHeight propsFrom20 = 500"
    by (simp add: propsFrom20_def defaultProps_def)
  show ?thesis
    using h1 h2 h3 h4 scroll_compensation [OF h1 h2, where t = 0 and T = 1000] by (simp add: v)
qed

subsection \<open>C5: debounce and single flight\<close>

text \<open>
  C5. Take an idle controller (no timer pending, not loading, as at mount and after every
  completed episode) and a sequence of edge triggers that it can receive, each at most as
  early as the next and less than \<open>debounceDelay\<close> before it. Then whatever time \<open>T\<close> the
  clock is let run to afterwards, at most one load episode has started, \<open>onLoadMore\<close> was
  called at most once and the window has shifted at most once, also when the triggers come
  from both edges. If the sequence is not empty, then once \<open>debounceDelay\<close> and
  \<open>loadingDelay\<close> have passed after its last trigger exactly one episode has taken place:
  one shift by \<open>batchSize\<close> in the direction of the last trigger and one call of
  \<open>onLoadMore\<close> if it was supplied; so it is when all triggers are for one direction.
\<close>

theorem debounce_coalescing:
  assumes "pending s = []" and "\<not> loadingRef s" and "startIndexRef s = startIndex s"
      and "tds \<noteq> [] \<longrightarrow> now s \<le> fst (hd tds)"
      and "spaced (debounceDelay p) (map fst tds)"
      and "receivable p (edgeEvents tds) s"
  shows "episodes (advance p T (run p (edgeEvents tds) s)) \<le> episodes s + 1
    \<and> callbacks (advance p T (run p (edgeEvents tds) s)) \<le> callbacks s + 1
    \<and> (startIndex (advance p T (run p (edgeEvents tds) s)) = startIndex s
        \<or> tds \<noteq> [] \<and> startIndex (advance p T (run p (edgeEvents tds) s))
            = shifted p (snd (last tds)) (startIndex s))
    \<and> (tds \<noteq> [] \<and> fst (last tds) + max 0 (debounceDelay p) + max 0 (loadingDelay p) \<le> T \<longrightarrow>
          episodes (advance p T (run p (edgeEvents tds) s)) = episodes s + 1
        \<and> callbacks (advance p T (run p (edgeEvents tds) s))
            = callbacks s + (if onLoadMore p then 1 else 0)
        \<and> startIndex (advance p T (run p (edgeEvents tds) s))
            = shifted p (snd (last tds)) (startIndex s))"
proof (cases "tds = []")
  case True
  then have "advance p T (run p (edgeEvents tds) s) = s\<lparr>now := max (now s) T\<rparr>"
    using assms(1) by (simp add: edgeEvents_def advance_nil)
  then show ?thesis using True by (simp add: episodes_def callbacks_def)
next
  case False
  have "Up \<in> snd ` set tds \<longrightarrow> 0 < startIndexRef s"
    using receivable_idle [OF assms] assms(3) by simp
  then obtain n where "run p (edgeEvents tds) s = armed p s (fst (last tds)) n (snd (last tds))"
    using run_edges [of s tds p] assms False by auto
  then show ?thesis
    using False armed_outcome [of T "fst (last tds)" p s n "snd (last tds)"]
    by (auto simp: episodes_def callbacks_def)
qed

text \<open>
  Bottom, top and bottom triggers at 0, 100 and 240 on a window that starts at 20, with the
  default delays: one episode, one callback, and the window starts at 30.
\<close>

theorem debounce_coalescing_witness:
  "pending (mount propsFrom20) = [] \<and> \<not> loadingRef (mount propsFrom20)
   \<and> startIndexRef (mount propsFrom20) = startIndex (mount propsFrom20)
   \<and> [(0, Down), (100, Up), (240, Down)] \<noteq> []
   \<and> now (mount propsFrom20) \<le> fst (hd [(0, Down), (100, Up), (240, Down)])
   \<and> spaced (debounceDelay propsFrom20) (map fst [(0, Down), (100, Up), (240, Down)])
   \<and> receivable propsFrom20 (edgeEvents [(0, Down), (100, Up), (240, Down)]) (mount propsFrom20)
   \<and> fst (last [(0, Down), (100, Up), (240, Down)]) + max 0 (debounceDelay propsFrom20)
        + max 0 (loadingDelay propsFrom20) \<le> 1000
   \<and> episodes (advance propsFrom20 1000
        (run propsFrom20 (edgeEvents [(0, Down), (100, Up), (240, Down)]) (mount propsFrom20))) = 1
   \<and> callbacks (advance propsFrom20 1000
        (run propsFrom20 (edgeEvents [(0, Down), (100, Up), (240, Down)]) (mount propsFrom20))) = 1
   \<and> startIndex (advance propsFrom20 1000
        (run propsFrom20 (edgeEvents [(0, Down), (100, Up), (240, Down)]) (mount propsFrom20))) = 30"
proof -
  let ?tds = "[(0::int, Down), (100, Up), (240, Down)]"
  have h1: "pending (mount propsFrom20) = []" and h2: "\<not> loadingRef (mount propsFrom20)"
    and h3: "startIndexRef (mount propsFrom20) = startIndex (mount propsFrom20)"
    by (simp_all add: mount_def)
  have g: "now (mount propsFrom20) \<le> fst (hd ?tds)" by (simp add: mount_def)
  then have h4: "?tds \<noteq> [] \<longrightarrow> now (mount propsFrom20) \<le> fst (hd ?tds)" by simp
  have h5: "spaced (debounceDelay propsFrom20) (map fst ?tds)"
    by (simp add: propsFrom20_def defaultProps_def)
  have h6: "receivable propsFrom20 (edgeEvents ?tds) (mount propsFrom20)"
    by code_simp
  have v: "onLoadMore propsFrom20" "debounceDelay propsFrom20 = 150"
    "loadingDelay propsFrom20 = 50" "episodes (mount propsFrom20) = 0"
    "callbacks (mount propsFrom20) = 0" "startIndex (mount propsFrom20) = 20"
    "shifted propsFrom20 Down 20 = 30"
    by (simp_all add: propsFrom20_def defaultProps_def mount_def episodes_def callbacks_def
          shifted_def)
  show ?thesis
    using h1 h2 h3 g h5 h6 debounce_coalescing [OF h1 h2 h3 h4 h5 h6, of 1000]
    by (simp add: v)
qed

subsection \<open>C6: the top edge at the floor\<close>

text \<open>
  C6. In a state with start index at most 0, whose ref follows it, a top edge trigger
  returns the state as it is: no timer is armed, so no episode starts, and the window, the
  loading flag, the offset and the trace of callbacks are the same.
\<close>

theorem top_edge_noop:
  assumes "startIndex s \<le> 0" and "startIndexRef s = startIndex s"
  shows "handle p (Edge Up) s = s"
  using assms by (simp add: loadMoreUp_def)

theorem top_edge_noop_witness:
  "startIndex (mount defaultProps) \<le> 0
   \<and> startIndexRef (mount defaultProps) = startIndex (mount defaultProps)
   \<and> getCurrentRange (handle defaultProps (Edge Up) (mount defaultProps)) = (0, 29)
   \<and> pending (handle defaultProps (Edge Up) (mount defaultProps)) = []
   \<and> trace (handle defaultProps (Edge Up) (mount defaultProps)) = []"
proof -
  have h1: "startIndex (mount defaultProps) \<le> 0" by (simp add: mount_def defaultProps_def)
  have h2: "startIndexRef (mount defaultProps) = startIndex (mount defaultProps)"
    by (simp add: mount_def)
  show ?thesis
    using h1 h2 top_edge_noop [OF h1 h2, of defaultProps]
    by (simp add: getCurrentRange_def mount_def defaultProps_def)
qed

subsection \<open>C7: \<open>scrollToIndex\<close>\<close>

text \<open>
  C7. For \<open>i \<ge> 0\<close> and an attached container, \<open>scrollToIndex i\<close> writes the offset
  \<open>i * itemHeight\<close> and sets the window to start at \<open>max 0 (i - windowSize div 2)\<close> and to
  end \<open>windowSize - 1\<close> later, in one step of its own: the pending timers, the debounce
  handle, the loading flag, the trace and the clock are untouched. With a window size of 30,
  \<open>scrollToIndex 105\<close> gives the window \<open>(90, 119)\<close> and the offset \<open>105 * itemHeight\<close>.
\<close>

theorem scrollToIndex_jump:
  assumes "0 \<le> i" and "scrollTop s = Some y"
  shows "scrollTop (handle p (ScrollToIndex i) s) = Some (i * itemHeight p)
    \<and> startIndex (handle p (ScrollToIndex i) s) = max 0 (i - windowSize p div 2)
    \<and> endIndex (handle p (ScrollToIndex i) s) = max 0 (i - windowSize p div 2) + windowSize p - 1
    \<and> pending (handle p (ScrollToIndex i) s) = pending s
    \<and> debounceRef (handle p (ScrollToIndex i) s) = debounceRef s
    \<and> isLoading (handle p (ScrollToIndex i) s) = isLoading s
    \<and> trace (handle p (ScrollToIndex i) s) = trace s
    \<and> now (handle p (ScrollToIndex i) s) = now s
    \<and> (i = 105 \<and> windowSize p = 30 \<longrightarrow>
         getCurrentRange (handle p (ScrollToIndex i) s) = (90, 119)
         \<and> scrollTop (handle p (ScrollToIndex i) s) = Some (105 * itemHeight p))"
  using assms by (auto simp: handler_defs Let_def getCurrentRange_def)

theorem scrollToIndex_jump_witness:
  "(0::int) \<le> 105 \<and> scrollTop (mount defaultProps) = Some 0 \<and> windowSize defaultProps = 30
   \<and> getCurrentRange (handle defaultProps (ScrollToIndex 105) (mount defaultProps)) = (90, 119)
   \<and> scrollTop (handle defaultProps (ScrollToIndex 105) (mount defaultProps)) = Some 5250
   \<and> pending (handle defaultProps (ScrollToIndex 105) (mount defaultProps)) = []"
proof -
  have h1: "(0::int) \<le> 105" by simp
  have h2: "scrollTop (mount defaultProps) = Some 0" by (simp add: mount_def)
  have v: "windowSize defaultProps = 30" "itemHeight defaultProps = 50"
    "pending (mount defaultProps) = []"
    by (simp_all add: defaultProps_def mount_def)
  show ?thesis
    using h2 scrollToIndex_jump [OF h1 h2, of defaultProps] by (simp add: v)
qed

subsection \<open>C8: construction and invalid props\<close>

text \<open>
  C8 as stated fails. The component has no check of its props and no \<open>throw\<close>: \<open>mount\<close> is a
  state for any props. With \<open>windowSize = 0\<close> and \<open>batchSize = - 10\<close> it starts on the
  window \<open>(0, - 1)\<close> with nothing materialised, and goes on to shift it to \<open>(- 10, - 11)\<close>.
\<close>

theorem mount_unvalidated_counterexample:
  "windowSize (defaultProps\<lparr>windowSize := 0, batchSize := - 10\<rparr>) \<le> 0
   \<and> batchSize (defaultProps\<lparr>windowSize := 0, batchSize := - 10\<rparr>) < 0
   \<and> getCurrentRange (mount (defaultProps\<lparr>windowSize := 0, batchSize := - 10\<rparr>)) = (0, - 1)
   \<and> visibleIndices (defaultProps\<lparr>windowSize := 0, batchSize := - 10\<rparr>)
        (mount (defaultProps\<lparr>windowSize := 0, batchSize := - 10\<rparr>)) = []
   \<and> getCurrentRange
        (run (defaultProps\<lparr>windowSize := 0, batchSize := - 10\<rparr>) [(0, Edge Down), (1000, Tick)]
           (mount (defaultProps\<lparr>windowSize := 0, batchSize := - 10\<rparr>))) = (- 10, - 11)"
  by code_simp

text \<open>
  C8, amended. Construction accepts every configuration as it is, without an error and
  without clamping: the first window is \<open>(initialStartIndex, initialStartIndex + windowSize - 1)\<close>,
  of width \<open>windowSize\<close>, no callback has been made and no timer is armed; for
  \<open>windowSize \<le> 0\<close> the end lies before the start and no item is materialised.
\<close>

theorem mount_unvalidated:
  "getCurrentRange (mount p) = (initialStartIndex p, initialStartIndex p + windowSize p - 1)
   \<and> endIndex (mount p) - startIndex (mount p) + 1 = windowSize p
   \<and> length (visibleIndices p (mount p)) = nat (windowSize p)
   \<and> trace (mount p) = [] \<and> pending (mount p) = []
   \<and> (windowSize p \<le> 0 \<longrightarrow>
        endIndex (mount p) < startIndex (mount p) \<and> visibleIndices p (mount p) = [])"
  by (simp add: getCurrentRange_def mount_def visibleIndices_def)

theorem mount_unvalidated_witness:
  "windowSize (defaultProps\<lparr>windowSize := - 4\<rparr>) \<le> 0
   \<and> getCurrentRange (mount (defaultProps\<lparr>windowSize := - 4\<rparr>)) = (0, - 5)
   \<and> visibleIndices (defaultProps\<lparr>windowSize := - 4\<rparr>) (mount (defaultProps\<lparr>windowSize := - 4\<rparr>)) = []"
proof -
  have h: "windowSize (defaultProps\<lparr>windowSize := - 4\<rparr>) \<le> 0" by simp
  show ?thesis
    using h mount_unvalidated [of "defaultProps\<lparr>windowSize := - 4\<rparr>"]
    by (simp add: defaultProps_def)
qed

subsection \<open>C9: \<open>scrollToIndex\<close> below 0\<close>

text \<open>
  C9 as stated fails. The start is \<open>max 0 (i - windowSize div 2)\<close>, and a negative window
  size, which construction accepts, makes the subtracted half negative: with
  \<open>windowSize = - 4\<close>, \<open>scrollToIndex (- 1)\<close> sets the window to start at 1, not at 0.
\<close>

theorem scrollToIndex_negative_counterexample:
  "(- 1::int) < 0
   \<and> scrollTop (mount (defaultProps\<lparr>windowSize := - 4\<rparr>)) = Some 0
   \<and> startIndex (handle (defaultProps\<lparr>windowSize := - 4\<rparr>) (ScrollToIndex (- 1))
        (mount (defaultProps\<lparr>windowSize := - 4\<rparr>))) = 1
   \<and> getCurrentRange (handle (defaultProps\<lparr>windowSize := - 4\<rparr>) (ScrollToIndex (- 1))
        (mount (defaultProps\<lparr>windowSize := - 4\<rparr>))) = (1, - 4)"
  by code_simp

text \<open>
  C9, amended. For \<open>i < 0\<close>, a window size that is not negative and an attached container,
  \<open>scrollToIndex i\<close> returns a state (it has no failing branch) whose window starts at 0 and
  has the width \<open>windowSize\<close>. The start is \<open>max 0\<close> of the requested one, as the start
  after an upward shift is \<open>max 0\<close> of the ref minus \<open>batchSize\<close>, which is 0 too when that
  difference is negative.
\<close>

theorem scrollToIndex_negative:
  assumes "i < 0" and "0 \<le> windowSize p" and "scrollTop s = Some y"
  shows "startIndex (handle p (ScrollToIndex i) s) = 0
    \<and> endIndex (handle p (ScrollToIndex i) s) = windowSize p - 1
    \<and> endIndex (handle p (ScrollToIndex i) s) - startIndex (handle p (ScrollToIndex i) s) + 1
        = windowSize p
    \<and> startIndex (handle p (ScrollToIndex i) s) = max 0 (i - windowSize p div 2)
    \<and> (startIndexRef s - batchSize p < 0 \<longrightarrow>
         startIndex (fire p (Load Up cap) s) = max 0 (startIndexRef s - batchSize p)
         \<and> startIndex (fire p (Load Up cap) s) = 0)"
proof -
  have "0 \<le> windowSize p div 2" using assms(2) by simp
  then have "i - windowSize p div 2 < 0" using assms(1) by linarith
  then show ?thesis using assms(3) by (cases cap) (auto simp: handler_defs Let_def)
qed

theorem scrollToIndex_negative_witness:
  "(- 3::int) < 0 \<and> 0 \<le> windowSize defaultProps \<and> scrollTop (mount defaultProps) = Some 0
   \<and> startIndexRef (mount defaultProps) - batchSize defaultProps < 0
   \<and> getCurrentRange (handle defaultProps (ScrollToIndex (- 3)) (mount defaultProps)) = (0, 29)
   \<and> startIndex (fire defaultProps (Load Up None) (mount defaultProps)) = 0"
proof -
  have h1: "(- 3::int) < 0" by simp
  have h2: "0 \<le> windowSize defaultProps" by (simp add: defaultProps_def)
  have h3: "scrollTop (mount defaultProps) = Some 0" by (simp add: mount_def)
  have h4: "startIndexRef (mount defaultProps) - batchSize defaultProps < 0"
    by (simp add: mount_def defaultProps_def)
  have v: "windowSize defaultProps = 30" by (simp add: defaultProps_def)
  show ?thesis
    using h2 h3 h4 scrollToIndex_negative [OF h1 h2 h3, of None]
    by (simp add: getCurrentRange_def v)
qed

subsection \<open>C10: what \<open>disableScrollManagement\<close> leaves in place\<close>

text \<open>
  C10. With \<open>disableScrollManagement\<close> set and an attached container at offset \<open>y\<close>:
  \<open>reset\<close> still writes the offset 0 and \<open>scrollToIndex i\<close> still writes \<open>i * itemHeight\<close>;
  the debounce callback arms the loading callback without a captured offset; that loading
  callback still shifts the window by \<open>batchSize\<close> (clamped at 0 upwards) and still calls
  \<open>onLoadMore\<close> with the new window when it was supplied, but touches neither the offset
  nor the timers, so no frame callback follows. Hence an edge trigger on an idle controller
  leaves the offset at \<open>y\<close> at all later times, and once the debounce and loading delays have
  passed the window has shifted and the callback has been made.
\<close>

theorem disable_only_compensation:
  assumes "disableScrollManagement p" and "scrollTop s = Some y"
  shows "scrollTop (handle p Reset s) = Some 0
    \<and> scrollTop (handle p (ScrollToIndex i) s) = Some (i * itemHeight p)
    \<and> pending (fire p (Debounce d) s)
         = pending s @ [\<lparr>tid = nextId s, due = now s + max 0 (loadingDelay p), job = Load d None\<rparr>]
    \<and> startIndex (fire p (Load Down None) s1) = startIndexRef s1 + batchSize p
    \<and> startIndex (fire p (Load Up None) s1) = max 0 (startIndexRef s1 - batchSize p)
    \<and> endIndex (fire p (Load d None) s1) = startIndex (fire p (Load d None) s1) + windowSize p - 1
    \<and> (onLoadMore p \<longrightarrow>
         trace (fire p (Load d None) s1)
           = trace s1 @ [LoadMore d (startIndex (fire p (Load d None) s1))
                                   (endIndex (fire p (Load d None) s1))])
    \<and> scrollTop (fire p (Load d None) s1) = scrollTop s1
    \<and> pending (fire p (Load d None) s1) = pending s1
    \<and> (pending s = [] \<and> \<not> loadingRef s \<and> now s \<le> t \<and> (d = Up \<longrightarrow> 0 < startIndexRef s) \<longrightarrow>
         scrollTop (advance p T (step p (t, Edge d) s)) = Some y
         \<and> (t + max 0 (debounceDelay p) + max 0 (loadingDelay p) \<le> T \<longrightarrow>
              startIndex (advance p T (step p (t, Edge d) s)) = shifted p d (startIndex s)
              \<and> callbacks (advance p T (step p (t, Edge d) s))
                  = callbacks s + (if onLoadMore p then 1 else 0)))"
proof -
  have handlers: "scrollTop (handle p Reset s) = Some 0
    \<and> scrollTop (handle p (ScrollToIndex i) s) = Some (i * itemHeight p)
    \<and> pending (fire p (Debounce d) s)
         = pending s @ [\<lparr>tid = nextId s, due = now s + max 0 (loadingDelay p), job = Load d None\<rparr>]
    \<and> startIndex (fire p (Load Down None) s1) = startIndexRef s1 + batchSize p
    \<and> startIndex (fire p (Load Up None) s1) = max 0 (startIndexRef s1 - batchSize p)
    \<and> endIndex (fire p (Load d None) s1) = startIndex (fire p (Load d None) s1) + windowSize p - 1
    \<and> (onLoadMore p \<longrightarrow>
         trace (fire p (Load d None) s1)
           = trace s1 @ [LoadMore d (startIndex (fire p (Load d None) s1))
                                   (endIndex (fire p (Load d None) s1))])
    \<and> scrollTop (fire p (Load d None) s1) = scrollTop s1
    \<and> pending (fire p (Load d None) s1) = pending s1"
    using assms by (auto simp: handler_defs Let_def split: direction.splits)
  have run: "scrollTop (advance p T (step p (t, Edge d) s)) = Some y
         \<and> (t + max 0 (debounceDelay p) + max 0 (loadingDelay p) \<le> T \<longrightarrow>
              startIndex (advance p T (step p (t, Edge d) s)) = shifted p d (startIndex s)
              \<and> callbacks (advance p T (step p (t, Edge d) s))
                  = callbacks s + (if onLoadMore p then 1 else 0))"
    if "pending s = []" "\<not> loadingRef s" "now s \<le> t" "d = Up \<longrightarrow> 0 < startIndexRef s"
  proof -
    have st: "step p (t, Edge d) s = armed p s t (nextId s) d"
      using that by (intro first_edge) auto
    have "scrollTop (advance p T (armed p s t (nextId s) d)) = scrollTop (armed p s t (nextId s) d)"
      using assms(1) by (intro unmanaged_advance) (auto simp: armed_def)
    then have 1: "scrollTop (advance p T (step p (t, Edge d) s)) = Some y"
      using st assms(2) by (simp add: armed_def)
    have 2: "startIndex (advance p T (step p (t, Edge d) s)) = shifted p d (startIndex s)
              \<and> callbacks (advance p T (step p (t, Edge d) s))
                  = callbacks s + (if onLoadMore p then 1 else 0)"
      if "t + max 0 (debounceDelay p) + max 0 (loadingDelay p) \<le> T"
      using that st armed_outcome [of T t p s "nextId s" d]
      by (auto simp: callbacks_def)
    from 1 2 show ?thesis by blast
  qed
  from handlers run show ?thesis by blast
qed

theorem disable_only_compensation_witness:
  "disableScrollManagement propsUnmanaged
   \<and> scrollTop (handle propsUnmanaged (UserScroll 700) (mount propsUnmanaged)) = Some 700
   \<and> pending (handle propsUnmanaged (UserScroll 700) (mount propsUnmanaged)) = []
   \<and> \<not> loadingRef (handle propsUnmanaged (UserScroll 700) (mount propsUnmanaged))
   \<and> now (handle propsUnmanaged (UserScroll 700) (mount propsUnmanaged)) \<le> 0
   \<and> onLoadMore propsUnmanaged
   \<and> 0 + max 0 (debounceDelay propsUnmanaged) + max 0 (loadingDelay propsUnmanaged) \<le> 1000
   \<and> scrollTop (handle propsUnmanaged Reset
        (handle propsUnmanaged (UserScroll 700) (mount propsUnmanaged))) = Some 0
   \<and> scrollTop (handle propsUnmanaged (ScrollToIndex 105)
        (handle propsUnmanaged (UserScroll 700) (mount propsUnmanaged))) = Some 5250
   \<and> scrollTop (advance propsUnmanaged 1000 (step propsUnmanaged (0, Edge Down)
        (handle propsUnmanaged (UserScroll 700) (mount propsUnmanaged)))) = Some 700
   \<and> startIndex (advance propsUnmanaged 1000 (step propsUnmanaged (0, Edge Down)
        (handle propsUnmanaged (UserScroll 700) (mount propsUnmanaged)))) = 10
   \<and> callbacks (advance propsUnmanaged 1000 (step propsUnmanaged (0, Edge Down)
        (handle propsUnmanaged (UserScroll 700) (mount propsUnmanaged)))) = 1"
proof -
  let ?s = "handle propsUnmanaged (UserScroll 700) (mount propsUnmanaged)"
  have h1: "disableScrollManagement propsUnmanaged" by (simp add: propsUnmanaged_def)
  have h2: "scrollTop ?s = Some 700" by (simp add: mount_def)
  have h3: "pending ?s = [] \<and> \<not> loadingRef ?s \<and> now ?s \<le> 0" by (simp add: mount_def)
  have v: "onLoadMore propsUnmanaged" "debounceDelay propsUnmanaged = 150"
    "loadingDelay propsUnmanaged = 50" "itemHeight propsUnmanaged = 50"
    "startIndex ?s = 0" "callbacks ?s = 0" "shifted propsUnmanaged Down 0 = 10"
    by (simp_all add: propsUnmanaged_def defaultProps_def mount_def callbacks_def shifted_def)
  show ?thesis
    using h1 h2 h3
      disable_only_compensation [OF h1 h2, where i = 105 and d = Down and t = 0 and T = 1000
        and ?s1.0 = "mount propsUnmanaged"]
    by (simp add: v del: handle.simps step.simps)
qed

end
